theory Spec2Isabelle
  imports Main "HOL-Library.AList"
begin

section \<open>The logger of \<^verbatim>\<open>model_logger/log_level.py\<close>\<close>

text \<open>
  The class \<^verbatim>\<open>ModelLogger\<close> prints levelled records to the console and appends them
  to a log file, which it rotates by size into gzip archives. Everything the class does is
  an effect on the file system or on the console, so the model threads an explicit
  \<open>world\<close> through every method, and every method returns the exception it raised
  (if any) together with the world it left behind. What the operating system and the
  clock decide (which call fails, what time it is) is read from an \<open>env\<close>.
\<close>

subsection \<open>Exceptions, files, console\<close>

datatype error = ValueError | KeyError | TypeError | OSError

record file_data =
  content :: string
  mtime :: nat

text \<open>A console line is either a string given to \<^verbatim>\<open>print\<close> by the logger or one of its
  two diagnostic lines, whose text embeds the caught exception.\<close>

datatype console_line =
    Printed string
  | RotationError error
  | RemoveError string error

text \<open>The files are an association list from path to file; its order is the order in
  which \<^verbatim>\<open>os.listdir\<close> reports the entries. Paths are the strings the program builds.\<close>

record world =
  files :: "(string \<times> file_data) list"
  dirs :: "string list"
  console :: "console_line list"

record datetime =
  year :: nat
  month :: nat
  day :: nat
  hour :: nat
  minute :: nat
  second :: nat

datatype compress_fault = ReadOpenFails | GzipOpenFails | CopyFails string

datatype append_fault = AppendOpenFails | AppendWriteFails string

text \<open>
  The environment of one method call: the wall clock, the modification times the file
  system stamps on the three writes of a call, the library functions whose result the
  model does not compute (the gzip encoder, \<^verbatim>\<open>os.path.abspath\<close>, which depends on the
  working directory, and \<^verbatim>\<open>str.upper\<close>, Python's Unicode case mapping), and which
  system calls fail. Strings stand for Python's \<^verbatim>\<open>str\<close> values.
  \<open>CopyFails junk\<close>: the archive was opened and \<^verbatim>\<open>copyfileobj\<close> raised, leaving
  \<open>junk\<close> in it. \<open>AppendWriteFails part\<close>: the log was opened for append and the
  write raised after \<open>part\<close> reached the file.
\<close>

record env =
  now :: datetime
  t_archive :: nat
  t_truncate :: nat
  t_append :: nat
  gzip :: "string \<Rightarrow> string"
  abspath :: "string \<Rightarrow> string"
  str_upper :: "string \<Rightarrow> string"
  makedirs_fails :: bool
  compress_fault :: "compress_fault option"
  truncate_fails :: bool
  listdir_fails :: bool
  remove_fails :: "string \<Rightarrow> bool"
  append_fault :: "append_fault option"

record logger =
  name :: string
  file_path :: "string option"
  timestamp_format :: "string option"
  level :: string
  max_file_size :: int
  backup_count :: int
  archive_dir :: "string option"

subsection \<open>Python and \<^verbatim>\<open>os.path\<close> primitives\<close>

text \<open>Truth value of an \<^verbatim>\<open>Optional[str]\<close>: \<^verbatim>\<open>None\<close> and the empty string are false.\<close>

definition truthy :: "string option \<Rightarrow> bool" where
  "truthy s = (case s of None \<Rightarrow> False | Some v \<Rightarrow> v \<noteq> [])"

definition startswith :: "string \<Rightarrow> string \<Rightarrow> bool" where
  "startswith s p = (take (length p) s = p)"

definition endswith :: "string \<Rightarrow> string \<Rightarrow> bool" where
  "endswith s p = (length p \<le> length s \<and> drop (length s - length p) s = p)"

text \<open>\<^verbatim>\<open>xs[k:]\<close>, where a negative \<open>k\<close> counts from the end.\<close>

definition slice_from :: "int \<Rightarrow> 'a list \<Rightarrow> 'a list" where
  "slice_from k xs =
     (if k < 0 then drop (nat (int (length xs) + k)) xs else drop (nat k) xs)"

text \<open>\<^verbatim>\<open>xs.sort(key=..., reverse=True)\<close>: descending keys, equal keys in their
  original order (the list is reversed, sorted stably, and reversed again).\<close>

definition sort_reverse :: "('a \<Rightarrow> nat) \<Rightarrow> 'a list \<Rightarrow> 'a list" where
  "sort_reverse k xs = rev (sort_key k (rev xs))"

text \<open>\<^verbatim>\<open>posixpath.basename\<close>: what follows the last slash.\<close>

definition basename :: "string \<Rightarrow> string" where
  "basename p = rev (takeWhile (\<lambda>c. c \<noteq> CHR ''/'') (rev p))"

text \<open>\<^verbatim>\<open>posixpath.dirname\<close>: what precedes the last component, without its trailing
  slashes unless it consists of slashes only.\<close>

definition dirname :: "string \<Rightarrow> string" where
  "dirname p =
     (let head = take (length p - length (basename p)) p in
      if head \<noteq> [] \<and> (\<exists>c \<in> set head. c \<noteq> CHR ''/'')
      then rev (dropWhile (\<lambda>c. c = CHR ''/'') (rev head)) else head)"

text \<open>\<^verbatim>\<open>posixpath.join\<close> of two components.\<close>

definition join :: "string \<Rightarrow> string \<Rightarrow> string" where
  "join a b =
     (if b \<noteq> [] \<and> hd b = CHR ''/'' then b
      else if a = [] \<or> last a = CHR ''/'' then a @ b
      else a @ CHR ''/'' # b)"

text \<open>\<^verbatim>\<open>strftime\<close> for the numeric directives the logger's own formats use; any other
  directive is left as it is written.\<close>

definition digit :: "nat \<Rightarrow> char" where
  "digit n = ''0123456789'' ! (n mod 10)"

definition pad2 :: "nat \<Rightarrow> string" where
  "pad2 n = [digit (n div 10), digit n]"

definition pad4 :: "nat \<Rightarrow> string" where
  "pad4 n = [digit (n div 1000), digit (n div 100), digit (n div 10), digit n]"

definition directive :: "char \<Rightarrow> datetime \<Rightarrow> string" where
  "directive c t =
     (if c = CHR ''Y'' then pad4 (year t)
      else if c = CHR ''m'' then pad2 (month t)
      else if c = CHR ''d'' then pad2 (day t)
      else if c = CHR ''H'' then pad2 (hour t)
      else if c = CHR ''M'' then pad2 (minute t)
      else if c = CHR ''S'' then pad2 (second t)
      else if c = CHR ''%'' then [c]
      else [CHR ''%'', c])"

fun strftime :: "string \<Rightarrow> datetime \<Rightarrow> string" where
  "strftime [] t = []"
| "strftime [c] t = [c]"
| "strftime (c # d # rest) t =
     (if c = CHR ''%'' then directive d t @ strftime rest t
      else c # strftime (d # rest) t)"

text \<open>\<^verbatim>\<open>f"{level:<8}"\<close>: left-justified in eight columns.\<close>

definition ljust8 :: "string \<Rightarrow> string" where
  "ljust8 s = s @ replicate (8 - length s) CHR '' ''"

subsection \<open>File system primitives\<close>

definition path_exists :: "world \<Rightarrow> string \<Rightarrow> bool" where
  "path_exists w p = (map_of (files w) p \<noteq> None)"

definition getsize :: "world \<Rightarrow> string \<Rightarrow> error + int" where
  "getsize w p =
     (case map_of (files w) p of None \<Rightarrow> Inl OSError
      | Some f \<Rightarrow> Inr (int (length (content f))))"

definition getmtime :: "world \<Rightarrow> string \<Rightarrow> error + nat" where
  "getmtime w p =
     (case map_of (files w) p of None \<Rightarrow> Inl OSError | Some f \<Rightarrow> Inr (mtime f))"

definition write_file :: "string \<Rightarrow> string \<Rightarrow> nat \<Rightarrow> world \<Rightarrow> world" where
  "write_file p bytes t w =
     w\<lparr>files := AList.update p \<lparr>content = bytes, mtime = t\<rparr> (files w)\<rparr>"

text \<open>A path is an entry of directory \<open>d\<close> when joining \<open>d\<close> with the path's last
  component gives the path back.\<close>

definition in_dir :: "string \<Rightarrow> string \<Rightarrow> bool" where
  "in_dir d p = (basename p \<noteq> [] \<and> join d (basename p) = p)"

definition listdir :: "world \<Rightarrow> string \<Rightarrow> string list" where
  "listdir w d = map basename (filter (in_dir d) (map fst (files w)))"

text \<open>\<^verbatim>\<open>os.makedirs(d, exist_ok=True)\<close> creates \<open>d\<close> and every intermediate directory:
  each prefix of \<open>d\<close> that ends where a run of slashes begins.\<close>

definition intermediate_dirs :: "string \<Rightarrow> string list" where
  "intermediate_dirs d =
     map (\<lambda>i. take i d)
       (filter (\<lambda>i. d ! i = CHR ''/'' \<and> d ! (i - 1) \<noteq> CHR ''/'') [1 ..< length d])"

definition makedirs :: "env \<Rightarrow> string \<Rightarrow> world \<Rightarrow> error option \<times> world" where
  "makedirs e d w =
     (if makedirs_fails e then (Some OSError, w)
      else (None, w\<lparr>dirs := foldr List.insert (intermediate_dirs d @ [d]) (dirs w)\<rparr>))"

subsection \<open>The class\<close>

definition LOG_LEVELS :: "(string \<times> int) list" where
  "LOG_LEVELS =
     [(''DEBUG'', 0), (''INFO'', 1), (''SUCCESS'', 2), (''WARNING'', 3), (''ERROR'', 4)]"

text \<open>The colorama escape sequences.\<close>

definition esc :: "string \<Rightarrow> string" where
  "esc code = CHR 0x1B # CHR ''['' # code @ ''m''"

definition COLORS :: "(string \<times> string) list" where
  "COLORS =
     [(''INFO'', esc ''34''), (''SUCCESS'', esc ''32''), (''WARNING'', esc ''33''),
      (''ERROR'', esc ''31''), (''DEBUG'', esc ''35'')]"

definition RESET_ALL :: string where
  "RESET_ALL = esc ''0''"

text \<open>\<^verbatim>\<open>__init__\<close>. The archive directory is made before the level is validated.\<close>

definition init ::
  "env \<Rightarrow> string option \<Rightarrow> string option \<Rightarrow> string option \<Rightarrow> string \<Rightarrow> int \<Rightarrow> int \<Rightarrow>
   string option \<Rightarrow> world \<Rightarrow> (error + logger) \<times> world" where
  "init e name_arg file_path_arg timestamp_format_arg level_arg max_file_size_arg
        backup_count_arg archive_dir_arg w =
     (let self = \<lparr>name = (if truthy name_arg then the name_arg else ''ModelLogger''),
                  file_path = file_path_arg,
                  timestamp_format = timestamp_format_arg,
                  level = str_upper e level_arg,
                  max_file_size = max_file_size_arg,
                  backup_count = backup_count_arg,
                  archive_dir =
                    (if truthy file_path_arg \<and> archive_dir_arg = None
                     then Some (join (join (dirname (abspath e (the file_path_arg))) ''logs'')
                                  ''archive'')
                     else archive_dir_arg)\<rparr>;
          made = (if truthy (file_path self) \<and> truthy (archive_dir self)
                  then makedirs e (the (archive_dir self)) w else (None, w))
      in case made of
           (Some err, w') \<Rightarrow> (Inl err, w')
         | (None, w') \<Rightarrow>
             if map_of LOG_LEVELS (level self) = None then (Inl ValueError, w')
             else (Inr self, w'))"

text \<open>\<^verbatim>\<open>_get_archive_filename\<close>; \<^verbatim>\<open>basename(None)\<close> is a \<^verbatim>\<open>TypeError\<close>.\<close>

definition get_archive_filename :: "logger \<Rightarrow> env \<Rightarrow> error + string" where
  "get_archive_filename self e =
     (let timestamp = strftime ''%Y%m%d_%H%M%S'' (now e) in
      case file_path self of
        None \<Rightarrow> Inl TypeError
      | Some fp \<Rightarrow> Inr (basename fp @ ''_'' @ timestamp @ ''.gz''))"

text \<open>The first loop of \<^verbatim>\<open>_cleanup_old_archives\<close>, over the listed names. The base
  name of the log is read only for a name that ends in \<^verbatim>\<open>.gz\<close>.\<close>

fun collect_archives ::
  "logger \<Rightarrow> world \<Rightarrow> string \<Rightarrow> string list \<Rightarrow> error + (string \<times> nat) list" where
  "collect_archives self w d [] = Inr []"
| "collect_archives self w d (file # rest) =
     (if endswith file ''.gz'' then
        (case file_path self of
           None \<Rightarrow> Inl TypeError
         | Some fp \<Rightarrow>
             if startswith file (basename fp) then
               (let full_path = join d file in
                case getmtime w full_path of
                  Inl err \<Rightarrow> Inl err
                | Inr t \<Rightarrow>
                    (case collect_archives self w d rest of
                       Inl err \<Rightarrow> Inl err
                     | Inr archives \<Rightarrow> Inr ((full_path, t) # archives)))
             else collect_archives self w d rest)
      else collect_archives self w d rest)"

text \<open>The second loop: each removal that fails prints a line and the loop goes on.\<close>

fun remove_archives :: "env \<Rightarrow> string list \<Rightarrow> world \<Rightarrow> world" where
  "remove_archives e [] w = w"
| "remove_archives e (archive_path # rest) w =
     remove_archives e rest
       (if remove_fails e archive_path \<or> \<not> path_exists w archive_path
        then w\<lparr>console := console w @ [RemoveError archive_path OSError]\<rparr>
        else w\<lparr>files := AList.delete archive_path (files w)\<rparr>)"

definition cleanup_old_archives :: "logger \<Rightarrow> env \<Rightarrow> world \<Rightarrow> error option \<times> world" where
  "cleanup_old_archives self e w =
     (if \<not> truthy (archive_dir self) then (None, w)
      else if listdir_fails e then (Some OSError, w)
      else
        (case collect_archives self w (the (archive_dir self))
                (listdir w (the (archive_dir self))) of
           Inl err \<Rightarrow> (Some err, w)
         | Inr archives \<Rightarrow>
             (None,
              remove_archives e
                (map fst (slice_from (backup_count self) (sort_reverse snd archives))) w)))"

text \<open>The two \<^verbatim>\<open>with\<close> blocks of \<^verbatim>\<open>_rotate_log_file\<close>: the log is opened for reading,
  the archive for writing (which empties it), and the bytes are copied through gzip.\<close>

definition compress_log :: "env \<Rightarrow> string \<Rightarrow> string \<Rightarrow> world \<Rightarrow> error option \<times> world" where
  "compress_log e fp archive_path w =
     (case compress_fault e of
        Some ReadOpenFails \<Rightarrow> (Some OSError, w)
      | Some GzipOpenFails \<Rightarrow> (Some OSError, w)
      | Some (CopyFails junk) \<Rightarrow>
          (case map_of (files w) fp of
             None \<Rightarrow> (Some OSError, w)
           | Some f_in \<Rightarrow> (Some OSError, write_file archive_path junk (t_archive e) w))
      | None \<Rightarrow>
          (case map_of (files w) fp of
             None \<Rightarrow> (Some OSError, w)
           | Some f_in \<Rightarrow>
               (None,
                write_file archive_path
                  (gzip e (if archive_path = fp then [] else content f_in))
                  (t_archive e) w)))"

text \<open>\<^verbatim>\<open>open(self.file_path, 'w').close()\<close>\<close>

definition clear_log :: "env \<Rightarrow> string \<Rightarrow> world \<Rightarrow> error option \<times> world" where
  "clear_log e fp w =
     (if truncate_fails e then (Some OSError, w)
      else (None, write_file fp [] (t_truncate e) w))"

text \<open>The body of the \<^verbatim>\<open>try\<close> up to the cleanup: compress, then clear.\<close>

definition archive_and_clear ::
  "env \<Rightarrow> string \<Rightarrow> string \<Rightarrow> world \<Rightarrow> error option \<times> world" where
  "archive_and_clear e fp archive_path w =
     (case compress_log e fp archive_path w of
        (Some err, w1) \<Rightarrow> (Some err, w1)
      | (None, w1) \<Rightarrow> clear_log e fp w1)"

text \<open>\<^verbatim>\<open>_rotate_log_file\<close>. The archive path is built outside the \<^verbatim>\<open>try\<close>; whatever
  the body raises is caught and printed.\<close>

definition rotate_log_file :: "logger \<Rightarrow> env \<Rightarrow> world \<Rightarrow> error option \<times> world" where
  "rotate_log_file self e w =
     (if \<not> truthy (file_path self) \<or> \<not> path_exists w (the (file_path self)) then (None, w)
      else
        (case getsize w (the (file_path self)) of
           Inl err \<Rightarrow> (Some err, w)
         | Inr sz \<Rightarrow>
             if sz \<ge> max_file_size self then
               (case archive_dir self of
                  None \<Rightarrow> (Some TypeError, w)
                | Some d \<Rightarrow>
                    (case get_archive_filename self e of
                       Inl err \<Rightarrow> (Some err, w)
                     | Inr fname \<Rightarrow>
                         (case archive_and_clear e (the (file_path self)) (join d fname) w of
                            (Some err, w1) \<Rightarrow>
                              (None, w1\<lparr>console := console w1 @ [RotationError err]\<rparr>)
                          | (None, w1) \<Rightarrow>
                              (case cleanup_old_archives self e w1 of
                                 (Some err, w2) \<Rightarrow>
                                   (None, w2\<lparr>console := console w2 @ [RotationError err]\<rparr>)
                               | (None, w2) \<Rightarrow> (None, w2)))))
             else (None, w)))"

text \<open>\<^verbatim>\<open>_should_log\<close>: two dictionary lookups, each a \<^verbatim>\<open>KeyError\<close> on an unknown name.\<close>

definition should_log :: "logger \<Rightarrow> string \<Rightarrow> error + bool" where
  "should_log self lvl =
     (case map_of LOG_LEVELS lvl of
        None \<Rightarrow> Inl KeyError
      | Some pl \<Rightarrow>
          (case map_of LOG_LEVELS (level self) of
             None \<Rightarrow> Inl KeyError
           | Some pm \<Rightarrow> Inr (pl \<ge> pm)))"

text \<open>Appending to the log creates it when it is missing.\<close>

definition append_file :: "env \<Rightarrow> string \<Rightarrow> string \<Rightarrow> world \<Rightarrow> error option \<times> world" where
  "append_file e fp bytes w =
     (let old = (case map_of (files w) fp of None \<Rightarrow> [] | Some f \<Rightarrow> content f) in
      case append_fault e of
        Some AppendOpenFails \<Rightarrow> (Some OSError, w)
      | Some (AppendWriteFails part) \<Rightarrow>
          (Some OSError, write_file fp (old @ part) (t_append e) w)
      | None \<Rightarrow> (None, write_file fp (old @ bytes) (t_append e) w))"

text \<open>\<^verbatim>\<open>_write_to_file\<close>\<close>

definition write_to_file ::
  "logger \<Rightarrow> env \<Rightarrow> string \<Rightarrow> world \<Rightarrow> error option \<times> world" where
  "write_to_file self e message w =
     (if \<not> truthy (file_path self) then (None, w)
      else
        (case rotate_log_file self e w of
           (Some err, w1) \<Rightarrow> (Some err, w1)
         | (None, w1) \<Rightarrow>
             append_file e (the (file_path self)) (message @ [CHR 0x0A]) w1))"

text \<open>\<^verbatim>\<open>_log\<close>\<close>

definition log :: "logger \<Rightarrow> env \<Rightarrow> string \<Rightarrow> string \<Rightarrow> world \<Rightarrow> error option \<times> world" where
  "log self e lvl message w =
     (case should_log self lvl of
        Inl err \<Rightarrow> (Some err, w)
      | Inr False \<Rightarrow> (None, w)
      | Inr True \<Rightarrow>
          (let timestamp =
                 (if truthy (timestamp_format self)
                  then strftime (the (timestamp_format self)) (now e)
                  else strftime ''%Y-%m-%d %H:%M:%S'' (now e));
               color = (case map_of COLORS lvl of None \<Rightarrow> [] | Some c \<Rightarrow> c);
               plain_message =
                 ''['' @ timestamp @ ''] '' @ ljust8 lvl @ '' '' @ name self @ '': '' @ message;
               formatted_message = color @ plain_message @ RESET_ALL;
               w1 = w\<lparr>console := console w @ [Printed formatted_message]\<rparr>
           in if truthy (file_path self) then write_to_file self e plain_message w1
              else (None, w1)))"

text \<open>\<^verbatim>\<open>set_level\<close> returns the exception it raised, if any, and the logger it leaves.\<close>

definition set_level :: "logger \<Rightarrow> env \<Rightarrow> string \<Rightarrow> error option \<times> logger" where
  "set_level self e lvl =
     (let lvl' = str_upper e lvl in
      if map_of LOG_LEVELS lvl' = None then (Some ValueError, self)
      else (None, self\<lparr>level := lvl'\<rparr>))"

text \<open>A client that logs one record after another, each call with its level, its message
  and its environment, until a call raises.\<close>

fun log_calls ::
  "logger \<Rightarrow> (env \<times> string \<times> string) list \<Rightarrow> world \<Rightarrow> error option \<times> world" where
  "log_calls self [] w = (None, w)"
| "log_calls self ((e, lvl, message) # rest) w =
     (case log self e lvl message w of
        (Some err, w1) \<Rightarrow> (Some err, w1)
      | (None, w1) \<Rightarrow> log_calls self rest w1)"

subsection \<open>The archives of a log\<close>

text \<open>The paths of the files of directory \<open>d\<close> whose name starts with \<open>base\<close> and
  ends with \<^verbatim>\<open>.gz\<close>, in listing order: the set the pruning is about.\<close>

definition archive_paths :: "world \<Rightarrow> string \<Rightarrow> string \<Rightarrow> string list" where
  "archive_paths w d base =
     filter (\<lambda>p. in_dir d p \<and> endswith (basename p) ''.gz'' \<and> startswith (basename p) base)
       (map fst (files w))"


subsection \<open>A concrete configuration\<close>

text \<open>A logger on \<^verbatim>\<open>/var/log/app.log\<close> that keeps two archives of at most sixteen bytes,
  a fault-free environment whose gzip encoder prefixes the gzip magic bytes and whose
  \<^verbatim>\<open>str.upper\<close> is the one below, and a world in which the log is full and three archives and an unrelated file lie in the archive
  directory.\<close>

definition ex_logger :: logger where
  "ex_logger =
     \<lparr>name = ''app'', file_path = Some ''/var/log/app.log'',
      timestamp_format = Some ''%Y-%m-%d %H:%M:%S'', level = ''WARNING'',
      max_file_size = 16, backup_count = 2, archive_dir = Some ''/var/log/archive''\<rparr>"

text \<open>The upper-casing of the concrete environment maps the ASCII letters and leaves every
  other character: it is \<^verbatim>\<open>str.upper\<close> on ASCII strings, the only ones it is applied to.\<close>

definition ascii_upper_char :: "char \<Rightarrow> char" where
  "ascii_upper_char c =
     (let n = (of_char c :: nat) in if 97 \<le> n \<and> n \<le> 122 then char_of (n - 32) else c)"

definition ascii_upper :: "string \<Rightarrow> string" where
  "ascii_upper s = map ascii_upper_char s"

definition ex_env :: env where
  "ex_env =
     \<lparr>now = \<lparr>year = 2024, month = 3, day = 9, hour = 14, minute = 5, second = 59\<rparr>,
      t_archive = 500, t_truncate = 501, t_append = 502,
      gzip = (\<lambda>s. CHR 0x1F # CHR 0x8B # s), abspath = (\<lambda>p. p),
      str_upper = ascii_upper,
      makedirs_fails = False, compress_fault = None, truncate_fails = False,
      listdir_fails = False, remove_fails = (\<lambda>p. False), append_fault = None\<rparr>"


definition ex_world :: world where
  "ex_world =
     \<lparr>files =
        [(''/var/log/app.log'', \<lparr>content = ''0123456789abcdef'', mtime = 400\<rparr>),
         (''/var/log/archive/app.log_20240101_000000.gz'', \<lparr>content = ''a'', mtime = 100\<rparr>),
         (''/var/log/archive/app.log_20240301_000000.gz'', \<lparr>content = ''c'', mtime = 300\<rparr>),
         (''/var/log/archive/app.log_20240201_000000.gz'', \<lparr>content = ''b'', mtime = 200\<rparr>),
         (''/var/log/archive/other.gz'', \<lparr>content = ''d'', mtime = 50\<rparr>)],
      dirs = [''/var'', ''/var/log'', ''/var/log/archive''],
      console = []\<rparr>"

text \<open>A logger whose log is itself named like an archive and lies in the archive
  directory, keeping no archives, and a world holding only that log, full.\<close>

definition gz_logger :: logger where
  "gz_logger =
     ex_logger\<lparr>file_path := Some ''/var/log/app.gz'', archive_dir := Some ''/var/log'',
                backup_count := 0\<rparr>"

definition gz_world :: world where
  "gz_world =
     \<lparr>files = [(''/var/log/app.gz'', \<lparr>content = ''0123456789abcdef'', mtime = 400\<rparr>)],
      dirs = [''/var'', ''/var/log''], console = []\<rparr>"

section \<open>Level policy\<close>

lemma map_of_LOG_LEVELS_iff:
  "(map_of LOG_LEVELS s = None) =
     (s \<notin> {''DEBUG'', ''INFO'', ''SUCCESS'', ''WARNING'', ''ERROR''})"
  by (simp add: LOG_LEVELS_def)

text \<open>
  Claim C3. For a configured minimum level \<open>M\<close> and a message level \<open>L\<close>, both among
  the five names, \<^verbatim>\<open>_should_log\<close> returns whether the priority of \<open>L\<close> is at least
  that of \<open>M\<close>, the priorities being DEBUG 0, INFO 1, SUCCESS 2, WARNING 3, ERROR 4; and
  when the priority of \<open>L\<close> is smaller, \<^verbatim>\<open>_log\<close> returns leaving the world (console
  and files) as it was.
\<close>

theorem should_log_iff_priority:
  assumes "M \<in> {''DEBUG'', ''INFO'', ''SUCCESS'', ''WARNING'', ''ERROR''}"
    and "L \<in> {''DEBUG'', ''INFO'', ''SUCCESS'', ''WARNING'', ''ERROR''}"
    and "level self = M"
  shows "map_of LOG_LEVELS ''DEBUG'' = Some 0 \<and> map_of LOG_LEVELS ''INFO'' = Some 1 \<and>
         map_of LOG_LEVELS ''SUCCESS'' = Some 2 \<and> map_of LOG_LEVELS ''WARNING'' = Some 3 \<and>
         map_of LOG_LEVELS ''ERROR'' = Some 4 \<and>
         (\<exists>pm pl. map_of LOG_LEVELS M = Some pm \<and> map_of LOG_LEVELS L = Some pl \<and>
            should_log self L = Inr (pl \<ge> pm) \<and>
            (pl < pm \<longrightarrow> log self e L message w = (None, w)))"
proof -
  have tab: "map_of LOG_LEVELS ''DEBUG'' = Some 0 \<and> map_of LOG_LEVELS ''INFO'' = Some 1 \<and>
         map_of LOG_LEVELS ''SUCCESS'' = Some 2 \<and> map_of LOG_LEVELS ''WARNING'' = Some 3 \<and>
         map_of LOG_LEVELS ''ERROR'' = Some 4"
    by (simp add: LOG_LEVELS_def)
  from assms(1) obtain pm where pm: "map_of LOG_LEVELS M = Some pm"
    using map_of_LOG_LEVELS_iff [of M] by auto
  from assms(2) obtain pl where pl: "map_of LOG_LEVELS L = Some pl"
    using map_of_LOG_LEVELS_iff [of L] by auto
  have sl: "should_log self L = Inr (pl \<ge> pm)"
    by (simp add: should_log_def pm pl assms(3))
  have "pl < pm \<Longrightarrow> log self e L message w = (None, w)"
    by (simp add: log_def sl)
  with tab pm pl sl show ?thesis by blast
qed

theorem should_log_iff_priority_witness:
  "level ex_logger = ''WARNING'' \<and>
   should_log ex_logger ''INFO'' = Inr False \<and>
   should_log ex_logger ''ERROR'' = Inr True \<and>
   log ex_logger ex_env ''INFO'' ''started'' ex_world = (None, ex_world)"
proof -
  have m: "''WARNING'' \<in> {''DEBUG'', ''INFO'', ''SUCCESS'', ''WARNING'', ''ERROR''}" by simp
  have l1: "''INFO'' \<in> {''DEBUG'', ''INFO'', ''SUCCESS'', ''WARNING'', ''ERROR''}" by simp
  have l2: "''ERROR'' \<in> {''DEBUG'', ''INFO'', ''SUCCESS'', ''WARNING'', ''ERROR''}" by simp
  have lv: "level ex_logger = ''WARNING''" by (simp add: ex_logger_def)
  show ?thesis
    using lv
      should_log_iff_priority [OF m l1 lv, of ex_env "''started''" ex_world]
      should_log_iff_priority [OF m l2 lv, of ex_env "''started''" ex_world]
    by auto
qed

text \<open>
  Claim C8. \<^verbatim>\<open>set_level\<close> upper-cases its argument with \<^verbatim>\<open>str.upper\<close>, whatever
  that maps the argument to. When the result is not one of the five names the call raises
  \<^verbatim>\<open>ValueError\<close> and the logger, its level included, is as before; when it is one of
  them the call returns and the level is the upper-cased name.
\<close>

theorem set_level_validates:
  "(str_upper e s \<notin> {''DEBUG'', ''INFO'', ''SUCCESS'', ''WARNING'', ''ERROR''} \<longrightarrow>
      set_level self e s = (Some ValueError, self)) \<and>
   (str_upper e s \<in> {''DEBUG'', ''INFO'', ''SUCCESS'', ''WARNING'', ''ERROR''} \<longrightarrow>
      set_level self e s = (None, self\<lparr>level := str_upper e s\<rparr>))"
  using map_of_LOG_LEVELS_iff [of "str_upper e s"] by (simp add: set_level_def Let_def)

theorem set_level_validates_witness:
  "str_upper ex_env ''bogus'' \<notin> {''DEBUG'', ''INFO'', ''SUCCESS'', ''WARNING'', ''ERROR''} \<and>
   set_level ex_logger ex_env ''bogus'' = (Some ValueError, ex_logger) \<and>
   str_upper ex_env ''Debug'' \<in> {''DEBUG'', ''INFO'', ''SUCCESS'', ''WARNING'', ''ERROR''} \<and>
   set_level ex_logger ex_env ''Debug'' = (None, ex_logger\<lparr>level := ''DEBUG''\<rparr>)"
proof -
  have "ascii_upper ''bogus'' = ''BOGUS''" by code_simp
  then have b: "str_upper ex_env ''bogus'' = ''BOGUS''" by (simp add: ex_env_def)
  have "ascii_upper ''Debug'' = ''DEBUG''" by code_simp
  then have d: "str_upper ex_env ''Debug'' = ''DEBUG''" by (simp add: ex_env_def)
  show ?thesis
    using set_level_validates [of ex_env "''bogus''" ex_logger]
      set_level_validates [of ex_env "''Debug''" ex_logger]
    by (simp add: b d)
qed

section \<open>Paths and the file system\<close>

lemma basename_no_slash: "CHR ''/'' \<notin> set (basename p)"
  by (auto simp: basename_def dest: set_takeWhileD)

lemma takeWhile_rev_tail:
  assumes "CHR ''/'' \<notin> set n" and "a = [] \<or> last a = CHR ''/''"
  shows "takeWhile (\<lambda>c. c \<noteq> CHR ''/'') (rev n @ rev a) = rev n"
proof -
  have "takeWhile (\<lambda>c. c \<noteq> CHR ''/'') (rev a) = []"
    using assms(2) by (auto simp: takeWhile_eq_Nil_iff hd_rev)
  moreover have "\<forall>c \<in> set (rev n). c \<noteq> CHR ''/''"
    using assms(1) by auto
  then have "takeWhile (\<lambda>c. c \<noteq> CHR ''/'') (rev n @ rev a) =
      rev n @ takeWhile (\<lambda>c. c \<noteq> CHR ''/'') (rev a)"
    by (intro takeWhile_append2) blast
  ultimately show ?thesis by simp
qed

lemma basename_join:
  assumes "CHR ''/'' \<notin> set n"
  shows "basename (join d n) = n"
proof -
  have nohd: "\<not> (n \<noteq> [] \<and> hd n = CHR ''/'')"
    using assms by (cases n) auto
  show ?thesis
  proof (cases "d = [] \<or> last d = CHR ''/''")
    case True
    then have "join d n = d @ n" using nohd by (auto simp: join_def)
    then show ?thesis using takeWhile_rev_tail [OF assms True] by (simp add: basename_def)
  next
    case False
    then have j: "join d n = (d @ ''/'') @ n" using nohd by (auto simp: join_def)
    have "takeWhile (\<lambda>c. c \<noteq> CHR ''/'') (rev n @ rev (d @ ''/'')) = rev n"
      by (rule takeWhile_rev_tail [OF assms]) simp
    then show ?thesis unfolding j basename_def by simp
  qed
qed

lemma digit_no_slash: "digit n \<noteq> CHR ''/''"
proof -
  have "n mod 10 < length ''0123456789''" by simp
  then have "''0123456789'' ! (n mod 10) \<in> set ''0123456789''" by (rule nth_mem)
  then show ?thesis unfolding digit_def by auto
qed

lemma stamp_no_slash: "CHR ''/'' \<notin> set (strftime ''%Y%m%d_%H%M%S'' t)"
  by (simp add: directive_def pad2_def pad4_def digit_no_slash [symmetric])

lemma archive_filename_props:
  assumes "get_archive_filename self e = Inr fname"
  shows "\<exists>fp. file_path self = Some fp \<and>
           fname = basename fp @ ''_'' @ strftime ''%Y%m%d_%H%M%S'' (now e) @ ''.gz''"
    and "CHR ''/'' \<notin> set fname"
  using assms basename_no_slash stamp_no_slash
  by (auto simp: get_archive_filename_def Let_def split: option.splits)

lemma archive_path_not_log:
  assumes "get_archive_filename self e = Inr fname" and "file_path self = Some fp"
  shows "join d fname \<noteq> fp"
proof
  assume eq: "join d fname = fp"
  have "basename (join d fname) = fname"
    using archive_filename_props(2) [OF assms(1)] by (rule basename_join)
  then have "fname = basename fp" using eq by simp
  moreover have "length fname > length (basename fp)"
    using archive_filename_props(1) [OF assms(1)] assms(2) by auto
  ultimately show False by simp
qed

lemma map_of_write_file:
  "map_of (files (write_file p b t w)) q =
     (if q = p then Some \<lparr>content = b, mtime = t\<rparr> else map_of (files w) q)"
  by (simp add: write_file_def update_conv')

lemma console_write_file: "console (write_file p b t w) = console w"
  by (simp add: write_file_def)

lemma dirs_write_file: "dirs (write_file p b t w) = dirs w"
  by (simp add: write_file_def)

section \<open>Construction\<close>

lemma set_foldr_insert: "set (foldr List.insert xs ys) = set xs \<union> set ys"
  by (induction xs) auto

lemma join_nonempty: "b \<noteq> [] \<Longrightarrow> join a b \<noteq> []"
  by (auto simp: join_def)

text \<open>
  Claim C9. When the constructor is given a file path and a level whose upper-cased name
  (by \<^verbatim>\<open>str.upper\<close>)
  is not one of the five, and \<^verbatim>\<open>os.makedirs\<close> succeeds, it raises \<^verbatim>\<open>ValueError\<close>
  after the archive directory (the one given, or \<^verbatim>\<open>logs/archive\<close> beside the log) and
  its intermediate directories have been created: they are in the world the failed call
  leaves behind, which otherwise is as before.
\<close>

theorem init_makes_archive_dir_before_raising:
  assumes "file_path_arg = Some fp" and "fp \<noteq> []"
    and "str_upper e level_arg \<notin> {''DEBUG'', ''INFO'', ''SUCCESS'', ''WARNING'', ''ERROR''}"
    and "\<not> makedirs_fails e"
    and "archive_dir_arg \<noteq> Some []"
    and "d = (case archive_dir_arg of
                None \<Rightarrow> join (join (dirname (abspath e fp)) ''logs'') ''archive''
              | Some a \<Rightarrow> a)"
  shows "\<exists>w'. init e name_arg file_path_arg timestamp_format_arg level_arg max_file_size_arg
                 backup_count_arg archive_dir_arg w = (Inl ValueError, w') \<and>
              d \<in> set (dirs w') \<and> set (intermediate_dirs d) \<subseteq> set (dirs w') \<and>
              set (dirs w) \<subseteq> set (dirs w') \<and>
              files w' = files w \<and> console w' = console w"
proof -
  have lv: "map_of LOG_LEVELS (str_upper e level_arg) = None"
    using assms(3) map_of_LOG_LEVELS_iff [of "str_upper e level_arg"] by simp
  have tf: "truthy file_path_arg" using assms(1,2) by (simp add: truthy_def)
  show ?thesis
  proof (cases archive_dir_arg)
    case None
    have dne: "d \<noteq> []" using assms(6) None by (simp add: join_nonempty)
    show ?thesis
      using None lv tf dne assms(1,4,6)
      by (auto simp: init_def Let_def makedirs_def truthy_def set_foldr_insert)
  next
    case (Some a)
    then have "a \<noteq> []" and "d = a" using assms(5,6) by auto
    then show ?thesis
      using Some lv tf assms(1,4)
      by (auto simp: init_def Let_def makedirs_def truthy_def set_foldr_insert)
  qed
qed

theorem init_makes_archive_dir_before_raising_witness:
  "fst (init ex_env None (Some ''/srv/app.log'') None ''verbose'' 16 2 None ex_world)
     = Inl ValueError \<and>
   set [''/srv'', ''/srv/logs'', ''/srv/logs/archive'']
     \<subseteq> set (dirs (snd (init ex_env None (Some ''/srv/app.log'') None ''verbose'' 16 2 None
                        ex_world)))"
proof -
  have "ascii_upper ''verbose'' = ''VERBOSE''" by code_simp
  then have u: "str_upper ex_env ''verbose''
                  \<notin> {''DEBUG'', ''INFO'', ''SUCCESS'', ''WARNING'', ''ERROR''}"
    by (simp add: ex_env_def)
  have m: "\<not> makedirs_fails ex_env" by (simp add: ex_env_def)
  have a: "(None :: string option) \<noteq> Some []" by simp
  have d: "''/srv/logs/archive'' =
     (case (None :: string option) of
        None \<Rightarrow> join (join (dirname (abspath ex_env ''/srv/app.log'')) ''logs'') ''archive''
      | Some a \<Rightarrow> a)"
    by code_simp
  have i: "intermediate_dirs ''/srv/logs/archive'' = [''/srv'', ''/srv/logs'']"
    by code_simp
  show ?thesis
    using init_makes_archive_dir_before_raising [OF refl _ u m a d,
        of None None 16 2 ex_world]
    by (auto simp: i)
qed

section \<open>Rotation that fails\<close>

lemma compress_log_fault:
  assumes "compress_fault e = Some cf" and "archive_path \<noteq> fp"
  shows "\<exists>w1. compress_log e fp archive_path w = (Some OSError, w1) \<and>
           map_of (files w1) fp = map_of (files w) fp \<and> console w1 = console w"
  using assms
  by (cases cf)
    (auto simp: compress_log_def map_of_write_file console_write_file split: option.splits)

lemma compress_log_ok:
  assumes "compress_fault e = None" and "archive_path \<noteq> fp"
    and "map_of (files w) fp = Some f"
  shows "compress_log e fp archive_path w =
           (None, write_file archive_path (gzip e (content f)) (t_archive e) w)"
  using assms by (simp add: compress_log_def)

lemma archive_and_clear_fault:
  assumes "compress_fault e \<noteq> None \<or> truncate_fails e" and "archive_path \<noteq> fp"
    and "map_of (files w) fp = Some f"
  shows "\<exists>w1. archive_and_clear e fp archive_path w = (Some OSError, w1) \<and>
           map_of (files w1) fp = Some f \<and> console w1 = console w"
proof (cases "compress_fault e")
  case (Some cf)
  from compress_log_fault [OF Some assms(2), of w] assms(3) show ?thesis
    by (auto simp: archive_and_clear_def)
next
  case None
  then have "truncate_fails e" using assms(1) by simp
  then show ?thesis
    using compress_log_ok [OF None assms(2,3)] assms(2,3)
    by (simp add: archive_and_clear_def clear_log_def map_of_write_file console_write_file)
qed

lemma rotate_log_file_triggered:
  assumes "file_path self = Some fp" and "fp \<noteq> []" and "archive_dir self = Some d"
    and "map_of (files w) fp = Some f" and "max_file_size self \<le> int (length (content f))"
  shows "\<exists>fname. get_archive_filename self e = Inr fname \<and> join d fname \<noteq> fp \<and>
           rotate_log_file self e w =
             (case archive_and_clear e fp (join d fname) w of
                (Some err, w1) \<Rightarrow> (None, w1\<lparr>console := console w1 @ [RotationError err]\<rparr>)
              | (None, w1) \<Rightarrow>
                  (case cleanup_old_archives self e w1 of
                     (Some err, w2) \<Rightarrow>
                       (None, w2\<lparr>console := console w2 @ [RotationError err]\<rparr>)
                   | (None, w2) \<Rightarrow> (None, w2)))"
proof -
  obtain fname where fn: "get_archive_filename self e = Inr fname"
    using assms(1) by (simp add: get_archive_filename_def)
  have ne: "join d fname \<noteq> fp" using archive_path_not_log [OF fn assms(1)] .
  have "rotate_log_file self e w =
             (case archive_and_clear e fp (join d fname) w of
                (Some err, w1) \<Rightarrow> (None, w1\<lparr>console := console w1 @ [RotationError err]\<rparr>)
              | (None, w1) \<Rightarrow>
                  (case cleanup_old_archives self e w1 of
                     (Some err, w2) \<Rightarrow>
                       (None, w2\<lparr>console := console w2 @ [RotationError err]\<rparr>)
                   | (None, w2) \<Rightarrow> (None, w2)))"
    using assms fn
    by (simp add: rotate_log_file_def truthy_def path_exists_def getsize_def)
  with fn ne show ?thesis by blast
qed

lemma rotate_log_file_swallows:
  assumes "file_path self = Some fp" and "fp \<noteq> []" and "archive_dir self = Some d"
    and "map_of (files w) fp = Some f" and "max_file_size self \<le> int (length (content f))"
    and "compress_fault e \<noteq> None \<or> truncate_fails e"
  shows "\<exists>w'. rotate_log_file self e w = (None, w') \<and> map_of (files w') fp = Some f \<and>
           console w' = console w @ [RotationError OSError]"
proof -
  from rotate_log_file_triggered [OF assms(1-5), of e] obtain fname where
    ne: "join d fname \<noteq> fp" and
    r: "rotate_log_file self e w =
             (case archive_and_clear e fp (join d fname) w of
                (Some err, w1) \<Rightarrow> (None, w1\<lparr>console := console w1 @ [RotationError err]\<rparr>)
              | (None, w1) \<Rightarrow>
                  (case cleanup_old_archives self e w1 of
                     (Some err, w2) \<Rightarrow>
                       (None, w2\<lparr>console := console w2 @ [RotationError err]\<rparr>)
                   | (None, w2) \<Rightarrow> (None, w2)))"
    by blast
  from archive_and_clear_fault [OF assms(6) ne assms(4)] obtain w1 where
    "archive_and_clear e fp (join d fname) w = (Some OSError, w1)"
    "map_of (files w1) fp = Some f" "console w1 = console w"
    by blast
  then show ?thesis using r by simp
qed


text \<open>
  Claim C2, as the code has it. When the rotation is due (the log exists and has reached
  the maximum size) and the log cannot be opened for reading, or the archive cannot be
  opened or written, \<^verbatim>\<open>_rotate_log_file\<close> catches the exception and prints it: the call
  returns normally, nothing is raised to the caller, and the log is as it was.
\<close>

theorem rotate_failure_is_caught:
  assumes "file_path self = Some fp" and "fp \<noteq> []" and "archive_dir self = Some d"
    and "map_of (files w) fp = Some f" and "max_file_size self \<le> int (length (content f))"
    and "compress_fault e = Some cf"
  shows "\<exists>w'. rotate_log_file self e w = (None, w') \<and> map_of (files w') fp = Some f \<and>
           console w' = console w @ [RotationError OSError]"
  using rotate_log_file_swallows [OF assms(1-5), of e] assms(6) by simp

theorem rotate_failure_is_caught_witness:
  "\<exists>w'. rotate_log_file ex_logger (ex_env\<lparr>compress_fault := Some GzipOpenFails\<rparr>) ex_world
           = (None, w') \<and>
         map_of (files w') ''/var/log/app.log'' =
           Some \<lparr>content = ''0123456789abcdef'', mtime = 400\<rparr> \<and>
         console w' = [RotationError OSError]"
  using rotate_failure_is_caught [of ex_logger "''/var/log/app.log''" "''/var/log/archive''"
      ex_world "\<lparr>content = ''0123456789abcdef'', mtime = 400\<rparr>"
      "ex_env\<lparr>compress_fault := Some GzipOpenFails\<rparr>" GzipOpenFails]
  by (simp add: ex_logger_def ex_world_def)

text \<open>The claim as written fails: with the log unreadable, the call raises nothing.\<close>

theorem rotate_failure_propagated_counterexample:
  "compress_fault (ex_env\<lparr>compress_fault := Some ReadOpenFails\<rparr>) = Some ReadOpenFails \<and>
   fst (rotate_log_file ex_logger (ex_env\<lparr>compress_fault := Some ReadOpenFails\<rparr>) ex_world)
     = None"
  by code_simp

text \<open>
  Claim C10. When the rotation is due and its compression or its truncation raises, and
  the append itself does not fail, \<^verbatim>\<open>_write_to_file\<close> returns normally: the record and
  a newline are appended to the log, whose earlier content is all still there, so the
  log stays at or above the maximum size; the caught exception is on the console.
\<close>

theorem append_survives_rotation_failure:
  assumes "file_path self = Some fp" and "fp \<noteq> []" and "archive_dir self = Some d"
    and "map_of (files w) fp = Some f" and "max_file_size self \<le> int (length (content f))"
    and "compress_fault e \<noteq> None \<or> truncate_fails e"
    and "append_fault e = None"
  shows "\<exists>w'. write_to_file self e message w = (None, w') \<and>
           map_of (files w') fp =
             Some \<lparr>content = content f @ message @ [CHR 0x0A], mtime = t_append e\<rparr> \<and>
           max_file_size self \<le> int (length (content f @ message @ [CHR 0x0A])) \<and>
           console w' = console w @ [RotationError OSError]"
proof -
  from rotate_log_file_swallows [OF assms(1-6)] obtain w1 where
    r: "rotate_log_file self e w = (None, w1)" and f1: "map_of (files w1) fp = Some f"
    and c1: "console w1 = console w @ [RotationError OSError]"
    by blast
  have "write_to_file self e message w = append_file e fp (message @ [CHR 0x0A]) w1"
    using assms(1,2) r by (simp add: write_to_file_def truthy_def)
  moreover have "append_file e fp (message @ [CHR 0x0A]) w1 =
      (None, write_file fp (content f @ message @ [CHR 0x0A]) (t_append e) w1)"
    using assms(7) f1 by (simp add: append_file_def)
  ultimately show ?thesis
    using assms(5) c1 by (simp add: map_of_write_file console_write_file)
qed

theorem append_survives_rotation_failure_witness:
  "\<exists>w'. write_to_file ex_logger (ex_env\<lparr>truncate_fails := True\<rparr>) ''disk check'' ex_world
           = (None, w') \<and>
         map_of (files w') ''/var/log/app.log'' =
           Some \<lparr>content = ''0123456789abcdef'' @ ''disk check'' @ [CHR 0x0A], mtime = 502\<rparr> \<and>
         console w' = [RotationError OSError]"
  using append_survives_rotation_failure [of ex_logger "''/var/log/app.log''"
      "''/var/log/archive''" ex_world "\<lparr>content = ''0123456789abcdef'', mtime = 400\<rparr>"
      "ex_env\<lparr>truncate_fails := True\<rparr>" "''disk check''"]
  by (simp add: ex_logger_def ex_world_def ex_env_def)

section \<open>Pruning\<close>

lemma slice_from_nonneg: "0 \<le> k \<Longrightarrow> slice_from k xs = drop (nat k) xs"
  by (simp add: slice_from_def)

lemma set_sort_reverse: "set (sort_reverse k xs) = set xs"
  by (simp add: sort_reverse_def)

lemma length_sort_reverse: "length (sort_reverse k xs) = length xs"
  by (simp add: sort_reverse_def)

lemma sort_reverse_descending: "sorted (rev (map k (sort_reverse k xs)))"
  by (simp add: sort_reverse_def rev_map)

lemma descending_take_drop:
  assumes "sorted (rev (map k ys))" and "x \<in> set (take n ys)" and "y \<in> set (drop n ys)"
  shows "k y \<le> k x"
proof -
  have "rev (map k ys) = rev (map k (drop n ys)) @ rev (map k (take n ys))"
    by (metis append_take_drop_id map_append rev_append)
  then have "sorted (rev (map k (drop n ys)) @ rev (map k (take n ys)))"
    using assms(1) by simp
  then show ?thesis using assms(2,3) by (auto simp: sorted_append)
qed

lemma files_remove_archives:
  "files (remove_archives e ps w) =
     filter (\<lambda>x. \<not> (fst x \<in> set ps \<and> \<not> remove_fails e (fst x))) (files w)"
proof (induction ps arbitrary: w)
  case Nil
  then show ?case by simp
next
  case (Cons p ps)
  show ?case
  proof (cases "remove_fails e p")
    case True
    then show ?thesis by (auto simp: Cons.IH intro: filter_cong)
  next
    case nf: False
    show ?thesis
    proof (cases "path_exists w p")
      case False
      then have "p \<notin> fst ` set (files w)"
        by (simp add: path_exists_def map_of_eq_None_iff)
      then show ?thesis using False nf by (auto simp: Cons.IH intro!: filter_cong)
    next
      case True
      then show ?thesis using nf
        by (auto simp: Cons.IH AList.delete_eq intro!: filter_cong)
    qed
  qed
qed

lemma dirs_remove_archives: "dirs (remove_archives e ps w) = dirs w"
  by (induction ps arbitrary: w) auto

lemma map_of_filter_keys:
  "map_of (filter (\<lambda>x. P (fst x)) xs) q = (if P q then map_of xs q else None)"
  by (induction xs) auto

lemma map_of_remove_archives:
  "map_of (files (remove_archives e ps w)) q =
     (if q \<in> set ps \<and> \<not> remove_fails e q then None else map_of (files w) q)"
  using map_of_filter_keys [of "\<lambda>k. \<not> (k \<in> set ps \<and> \<not> remove_fails e k)" "files w" q]
  by (simp add: files_remove_archives)

lemma collect_archives_paths:
  assumes "file_path self = Some fp"
    and "set ps \<subseteq> fst ` set (files w)" and "\<forall>p \<in> set ps. in_dir d p"
  shows "\<exists>archives. collect_archives self w d (map basename ps) = Inr archives \<and>
           map fst archives =
             filter (\<lambda>p. endswith (basename p) ''.gz'' \<and> startswith (basename p) (basename fp)) ps \<and>
           (\<forall>x \<in> set archives. \<exists>f. map_of (files w) (fst x) = Some f \<and> snd x = mtime f)"
  using assms(2,3)
proof (induction ps)
  case Nil
  then show ?case by simp
next
  case (Cons p ps)
  then obtain archives where
    r: "collect_archives self w d (map basename ps) = Inr archives" and
    k: "map fst archives =
         filter (\<lambda>p. endswith (basename p) ''.gz'' \<and> startswith (basename p) (basename fp)) ps" and
    m: "\<forall>x \<in> set archives. \<exists>f. map_of (files w) (fst x) = Some f \<and> snd x = mtime f"
    by auto
  have j: "join d (basename p) = p" using Cons.prems(2) by (simp add: in_dir_def)
  from Cons.prems(1) obtain f where f: "map_of (files w) p = Some f"
    by (metis list.set_intros(1) map_of_eq_None_iff not_Some_eq subsetD)
  show ?case
  proof (cases "endswith (basename p) ''.gz'' \<and> startswith (basename p) (basename fp)")
    case True
    then have "collect_archives self w d (map basename (p # ps)) = Inr ((p, mtime f) # archives)"
      using assms(1) r j f by (simp add: getmtime_def)
    then show ?thesis using True k m f by auto
  next
    case False
    then have "collect_archives self w d (map basename (p # ps)) = Inr archives"
      using assms(1) r by auto
    then show ?thesis using False k m by auto
  qed
qed

lemma collect_archives_listdir:
  assumes "file_path self = Some fp"
  shows "\<exists>archives. collect_archives self w d (listdir w d) = Inr archives \<and>
           map fst archives = archive_paths w d (basename fp) \<and>
           (\<forall>x \<in> set archives. \<exists>f. map_of (files w) (fst x) = Some f \<and> snd x = mtime f)"
proof -
  have "set (filter (in_dir d) (map fst (files w))) \<subseteq> fst ` set (files w)" by auto
  moreover have "\<forall>p \<in> set (filter (in_dir d) (map fst (files w))). in_dir d p" by simp
  ultimately obtain archives where
    "collect_archives self w d (map basename (filter (in_dir d) (map fst (files w)))) = Inr archives"
    "map fst archives =
       filter (\<lambda>p. endswith (basename p) ''.gz'' \<and> startswith (basename p) (basename fp))
         (filter (in_dir d) (map fst (files w)))"
    "\<forall>x \<in> set archives. \<exists>f. map_of (files w) (fst x) = Some f \<and> snd x = mtime f"
    using collect_archives_paths [OF assms] by blast
  then show ?thesis
    by (auto simp: listdir_def archive_paths_def conj_commute conj_left_commute)
qed

lemma cleanup_old_archives_removes:
  assumes "archive_dir self = Some d" and "d \<noteq> []" and "file_path self = Some fp"
    and "0 \<le> backup_count self" and "\<not> listdir_fails e"
  shows "\<exists>archives.
           map fst archives = archive_paths w d (basename fp) \<and>
           (\<forall>x \<in> set archives. \<exists>f. map_of (files w) (fst x) = Some f \<and> snd x = mtime f) \<and>
           cleanup_old_archives self e w =
             (None,
              remove_archives e
                (map fst (drop (nat (backup_count self)) (sort_reverse snd archives))) w)"
proof -
  from collect_archives_listdir [OF assms(3), of w d] obtain archives where
    c: "collect_archives self w d (listdir w d) = Inr archives" and
    k: "map fst archives = archive_paths w d (basename fp)" and
    m: "\<forall>x \<in> set archives. \<exists>f. map_of (files w) (fst x) = Some f \<and> snd x = mtime f"
    by blast
  have "cleanup_old_archives self e w =
          (None,
           remove_archives e
             (map fst (drop (nat (backup_count self)) (sort_reverse snd archives))) w)"
    using assms(1,2,4,5) c
    by (simp add: cleanup_old_archives_def truthy_def slice_from_nonneg)
  with k m show ?thesis by blast
qed

lemma distinct_archive_paths:
  "distinct (map fst (files w)) \<Longrightarrow> distinct (archive_paths w d base)"
  by (simp add: archive_paths_def)

lemma distinct_fst_sort_reverse:
  assumes "distinct (map fst xs)"
  shows "distinct (map fst (sort_reverse k xs))"
proof -
  have "card (set (map fst (sort_reverse k xs))) = card (set (map fst xs))"
    by (simp add: set_sort_reverse)
  also have "\<dots> = length (map fst xs)" using assms by (rule distinct_card)
  also have "\<dots> = length (map fst (sort_reverse k xs))" by (simp add: length_sort_reverse)
  finally show ?thesis by (rule card_distinct)
qed

text \<open>
  Claim C5. With an archive directory, a log path, a non-negative \<^verbatim>\<open>backup_count\<close> and
  a directory that can be listed, \<^verbatim>\<open>_cleanup_old_archives\<close> splits the files of the
  archive directory whose name starts with the log's base name and ends with \<^verbatim>\<open>.gz\<close>
  (these and no others) into the kept ones, the first \<^verbatim>\<open>backup_count\<close> by descending
  modification time, and the removed ones, none of which is newer than a kept one.
  Afterwards every removed one whose removal did not fail is gone, and every other path
  of the file system holds what it held.
\<close>

theorem cleanup_old_archives_keeps_newest:
  assumes "archive_dir self = Some d" and "d \<noteq> []" and "file_path self = Some fp"
    and "0 \<le> backup_count self" and "\<not> listdir_fails e"
    and "distinct (map fst (files w))"
  shows "\<exists>kept removed w'.
           cleanup_old_archives self e w = (None, w') \<and>
           set kept \<union> set removed = set (archive_paths w d (basename fp)) \<and>
           distinct (kept @ removed) \<and>
           length kept = min (nat (backup_count self))
                           (length (archive_paths w d (basename fp))) \<and>
           (\<forall>k \<in> set kept. \<forall>r \<in> set removed. \<forall>fk fr.
              map_of (files w) k = Some fk \<longrightarrow> map_of (files w) r = Some fr \<longrightarrow>
              mtime fr \<le> mtime fk) \<and>
           (\<forall>q. map_of (files w') q =
              (if q \<in> set removed \<and> \<not> remove_fails e q then None
               else map_of (files w) q))"
proof -
  from cleanup_old_archives_removes [OF assms(1-5), of w] obtain archives where
    k: "map fst archives = archive_paths w d (basename fp)" and
    m: "\<forall>x \<in> set archives. \<exists>f. map_of (files w) (fst x) = Some f \<and> snd x = mtime f" and
    c: "cleanup_old_archives self e w =
          (None,
           remove_archives e
             (map fst (drop (nat (backup_count self)) (sort_reverse snd archives))) w)"
    by blast
  define n where "n = nat (backup_count self)"
  define srt where "srt = sort_reverse snd archives"
  define kept where "kept = map fst (take n srt)"
  define removed where "removed = map fst (drop n srt)"
  have app: "kept @ removed = map fst srt"
    by (simp add: kept_def removed_def flip: map_append)
  have s: "set kept \<union> set removed = set (archive_paths w d (basename fp))"
  proof -
    have "set kept \<union> set removed = set (kept @ removed)" by simp
    also have "\<dots> = fst ` set archives" by (simp add: app srt_def set_sort_reverse)
    also have "\<dots> = set (archive_paths w d (basename fp))" using k by (metis set_map)
    finally show ?thesis .
  qed
  have "distinct (map fst archives)"
    using k distinct_archive_paths [OF assms(6)] by simp
  then have d: "distinct (kept @ removed)"
    unfolding app srt_def by (rule distinct_fst_sort_reverse)
  have l: "length kept = min n (length (archive_paths w d (basename fp)))"
  proof -
    have "length (archive_paths w d (basename fp)) = length archives"
      using k by (metis length_map)
    then show ?thesis by (simp add: kept_def srt_def length_sort_reverse min.commute)
  qed
  have o: "mtime fr \<le> mtime fk"
    if "kp \<in> set kept" "r \<in> set removed"
      "map_of (files w) kp = Some fk" "map_of (files w) r = Some fr" for kp r fk fr
  proof -
    from that(1) obtain x where x: "x \<in> set (take n srt)" "fst x = kp"
      by (auto simp: kept_def)
    from that(2) obtain y where y: "y \<in> set (drop n srt)" "fst y = r"
      by (auto simp: removed_def)
    have "sorted (rev (map snd srt))" unfolding srt_def by (rule sort_reverse_descending)
    then have le: "snd y \<le> snd x" using x(1) y(1) by (rule descending_take_drop)
    have "x \<in> set archives" using x(1) by (auto simp: srt_def set_sort_reverse dest: in_set_takeD)
    then have "snd x = mtime fk" using m x(2) that(3) by fastforce
    moreover have "y \<in> set archives"
      using y(1) by (auto simp: srt_def set_sort_reverse dest: in_set_dropD)
    then have "snd y = mtime fr" using m y(2) that(4) by fastforce
    ultimately show ?thesis using le by simp
  qed
  have c': "cleanup_old_archives self e w = (None, remove_archives e removed w)"
    using c by (simp add: removed_def srt_def n_def)
  show ?thesis
    using c' s d l o map_of_remove_archives [of e removed w]
    unfolding n_def by blast
qed

theorem cleanup_old_archives_keeps_newest_witness:
  "\<exists>kept removed w'.
     cleanup_old_archives ex_logger ex_env ex_world = (None, w') \<and>
     set kept \<union> set removed =
       set (archive_paths ex_world ''/var/log/archive'' (basename ''/var/log/app.log'')) \<and>
     distinct (kept @ removed) \<and>
     length kept = min (nat (backup_count ex_logger))
       (length (archive_paths ex_world ''/var/log/archive'' (basename ''/var/log/app.log''))) \<and>
     (\<forall>k \<in> set kept. \<forall>r \<in> set removed. \<forall>fk fr.
        map_of (files ex_world) k = Some fk \<longrightarrow> map_of (files ex_world) r = Some fr \<longrightarrow>
        mtime fr \<le> mtime fk) \<and>
     (\<forall>q. map_of (files w') q =
        (if q \<in> set removed \<and> \<not> remove_fails ex_env q then None
         else map_of (files ex_world) q))"
proof -
  have a: "archive_dir ex_logger = Some ''/var/log/archive''" by (simp add: ex_logger_def)
  have n: "''/var/log/archive'' \<noteq> []" by simp
  have f: "file_path ex_logger = Some ''/var/log/app.log''" by (simp add: ex_logger_def)
  have b: "0 \<le> backup_count ex_logger" by (simp add: ex_logger_def)
  have l: "\<not> listdir_fails ex_env" by (simp add: ex_env_def)
  have d: "distinct (map fst (files ex_world))" by (simp add: ex_world_def)
  show ?thesis by (rule cleanup_old_archives_keeps_newest [OF a n f b l d])
qed

text \<open>On the concrete world the oldest of the three archives goes; the file \<^verbatim>\<open>other.gz\<close>, whose
  name does not start with the base name, stays.\<close>

lemma cleanup_old_archives_example:
  "archive_paths ex_world ''/var/log/archive'' (basename ''/var/log/app.log'') =
     [''/var/log/archive/app.log_20240101_000000.gz'',
      ''/var/log/archive/app.log_20240301_000000.gz'',
      ''/var/log/archive/app.log_20240201_000000.gz''] \<and>
   map fst (files (snd (cleanup_old_archives ex_logger ex_env ex_world))) =
     [''/var/log/app.log'',
      ''/var/log/archive/app.log_20240301_000000.gz'',
      ''/var/log/archive/app.log_20240201_000000.gz'',
      ''/var/log/archive/other.gz'']"
  by code_simp

section \<open>Rotation that succeeds\<close>

lemma archive_and_clear_ok:
  assumes "compress_fault e = None" and "\<not> truncate_fails e" and "archive_path \<noteq> fp"
    and "map_of (files w) fp = Some f"
  shows "archive_and_clear e fp archive_path w =
           (None,
            write_file fp [] (t_truncate e)
              (write_file archive_path (gzip e (content f)) (t_archive e) w))"
  using assms by (simp add: archive_and_clear_def compress_log_ok clear_log_def)






lemma cleanup_old_archives_only_removes:
  "map_of (files (snd (cleanup_old_archives self e w))) q = None \<or>
   map_of (files (snd (cleanup_old_archives self e w))) q = map_of (files w) q"
  by (auto simp: cleanup_old_archives_def map_of_remove_archives split: sum.splits)

lemma set_slice_from: "set (slice_from k xs) \<subseteq> set xs"
  by (auto simp: slice_from_def dest: in_set_dropD)

lemma cleanup_old_archives_untouched:
  assumes "file_path self = Some fp" and "archive_dir self = Some d"
    and "q \<notin> set (archive_paths w d (basename fp))"
  shows "map_of (files (snd (cleanup_old_archives self e w))) q = map_of (files w) q"
proof -
  from collect_archives_listdir [OF assms(1), of w d] obtain archives where
    c: "collect_archives self w d (listdir w d) = Inr archives" and
    k: "map fst archives = archive_paths w d (basename fp)"
    by blast
  have "set (map fst (slice_from (backup_count self) (sort_reverse snd archives)))
          \<subseteq> set (map fst archives)"
    using set_slice_from [of "backup_count self" "sort_reverse snd archives"]
    by (auto simp: set_sort_reverse)
  then have "q \<notin> set (map fst (slice_from (backup_count self) (sort_reverse snd archives)))"
    using assms(3) k by auto
  then show ?thesis
    using assms(2) c by (simp add: cleanup_old_archives_def map_of_remove_archives)
qed

lemma rotate_log_file_rotated:
  assumes "file_path self = Some fp" and "fp \<noteq> []" and "archive_dir self = Some d"
    and "map_of (files w) fp = Some f" and "max_file_size self \<le> int (length (content f))"
    and "compress_fault e = None" and "\<not> truncate_fails e"
  shows "\<exists>fname w1 w'.
           get_archive_filename self e = Inr fname \<and> join d fname \<noteq> fp \<and>
           w1 = write_file fp [] (t_truncate e)
                  (write_file (join d fname) (gzip e (content f)) (t_archive e) w) \<and>
           archive_and_clear e fp (join d fname) w = (None, w1) \<and>
           rotate_log_file self e w = (None, w') \<and>
           files w' = files (snd (cleanup_old_archives self e w1))"
proof -
  from rotate_log_file_triggered [OF assms(1-5), of e] obtain fname where
    fn: "get_archive_filename self e = Inr fname" and
    ne: "join d fname \<noteq> fp" and
    r: "rotate_log_file self e w =
             (case archive_and_clear e fp (join d fname) w of
                (Some err, w1) \<Rightarrow> (None, w1\<lparr>console := console w1 @ [RotationError err]\<rparr>)
              | (None, w1) \<Rightarrow>
                  (case cleanup_old_archives self e w1 of
                     (Some err, w2) \<Rightarrow>
                       (None, w2\<lparr>console := console w2 @ [RotationError err]\<rparr>)
                   | (None, w2) \<Rightarrow> (None, w2)))"
    by blast
  define w1 where "w1 = write_file fp [] (t_truncate e)
              (write_file (join d fname) (gzip e (content f)) (t_archive e) w)"
  have ac: "archive_and_clear e fp (join d fname) w = (None, w1)"
    unfolding w1_def by (rule archive_and_clear_ok [OF assms(6,7) ne assms(4)])
  obtain r2 w2 where c: "cleanup_old_archives self e w1 = (r2, w2)"
    by (cases "cleanup_old_archives self e w1")
  have "\<exists>w'. rotate_log_file self e w = (None, w') \<and> files w' = files w2"
    using r ac c by (cases r2) simp_all
  then show ?thesis using fn ne ac c w1_def by auto
qed

text \<open>When the log's own name does not end in \<^verbatim>\<open>.gz\<close>, a rotation without failure
  leaves it empty at its path.\<close>

lemma rotate_log_file_keeps_log:
  assumes "file_path self = Some fp" and "fp \<noteq> []" and "archive_dir self = Some d"
    and "map_of (files w) fp = Some f" and "max_file_size self \<le> int (length (content f))"
    and "compress_fault e = None" and "\<not> truncate_fails e"
    and "\<not> endswith (basename fp) ''.gz''"
  shows "\<exists>w'. rotate_log_file self e w = (None, w') \<and>
           map_of (files w') fp = Some \<lparr>content = [], mtime = t_truncate e\<rparr>"
proof -
  from rotate_log_file_rotated [OF assms(1-7)] obtain fname w1 w' where
    w1: "w1 = write_file fp [] (t_truncate e)
                  (write_file (join d fname) (gzip e (content f)) (t_archive e) w)" and
    r: "rotate_log_file self e w = (None, w')" and
    fl: "files w' = files (snd (cleanup_old_archives self e w1))"
    by blast
  have "fp \<notin> set (archive_paths w1 d (basename fp))"
    using assms(8) by (simp add: archive_paths_def)
  then have "map_of (files w') fp = map_of (files w1) fp"
    unfolding fl by (rule cleanup_old_archives_untouched [OF assms(1,3)])
  then show ?thesis using r by (simp add: w1 map_of_write_file)
qed

lemma rotate_log_file_example:
  "files (snd (rotate_log_file ex_logger ex_env ex_world)) =
     [(''/var/log/app.log'', \<lparr>content = [], mtime = 501\<rparr>),
      (''/var/log/archive/app.log_20240301_000000.gz'', \<lparr>content = ''c'', mtime = 300\<rparr>),
      (''/var/log/archive/other.gz'', \<lparr>content = ''d'', mtime = 50\<rparr>),
      (''/var/log/archive/app.log_20240309_140559.gz'',
       \<lparr>content = CHR 0x1F # CHR 0x8B # ''0123456789abcdef'', mtime = 500\<rparr>)]"
  by code_simp

section \<open>Appending\<close>

lemma rotate_log_file_leaves_room:
  assumes "file_path self = Some fp" and "fp \<noteq> []" and "0 < max_file_size self"
    and "compress_fault e = None" and "\<not> truncate_fails e"
    and "rotate_log_file self e w = (None, w1)" and "map_of (files w1) fp = Some f1"
  shows "int (length (content f1)) < max_file_size self"
proof (cases "map_of (files w) fp")
  case None
  then have "rotate_log_file self e w = (None, w)"
    using assms(1) by (simp add: rotate_log_file_def path_exists_def)
  then show ?thesis using assms(6,7) None by simp
next
  case (Some f)
  show ?thesis
  proof (cases "max_file_size self \<le> int (length (content f))")
    case False
    then have "rotate_log_file self e w = (None, w)"
      using assms(1,2) Some
      by (simp add: rotate_log_file_def path_exists_def truthy_def getsize_def)
    then show ?thesis using assms(6,7) Some False by simp
  next
    case True
    show ?thesis
    proof (cases "archive_dir self")
      case None
      then have "rotate_log_file self e w = (Some TypeError, w)"
        using assms(1,2) Some True
        by (simp add: rotate_log_file_def path_exists_def truthy_def getsize_def)
      then show ?thesis using assms(6) by simp
    next
      case (Some d)
      from rotate_log_file_rotated [OF assms(1,2) Some \<open>map_of (files w) fp = Some f\<close> True
          assms(4,5)]
      obtain fname w0 w' where
        w0: "w0 = write_file fp [] (t_truncate e)
                  (write_file (join d fname) (gzip e (content f)) (t_archive e) w)" and
        r: "rotate_log_file self e w = (None, w')" and
        fl: "files w' = files (snd (cleanup_old_archives self e w0))"
        by blast
      have "w' = w1" using r assms(6) by simp
      then have "map_of (files w1) fp = None \<or> map_of (files w1) fp = map_of (files w0) fp"
        using fl cleanup_old_archives_only_removes [of self e w0 fp] by simp
      then have "content f1 = []"
        using assms(7) by (auto simp: w0 map_of_write_file)
      then show ?thesis using assms(3) by simp
    qed
  qed
qed

text \<open>
  Claim C1, as the code has it. With a file path set, whenever \<^verbatim>\<open>_write_to_file\<close>
  returns normally the log exists and ends with the record and a newline. The size check
  comes before the write: when the maximum size is positive and neither the compression
  nor the truncation of a rotation raised, what precedes the record in the log is
  strictly smaller than the maximum size, so the log itself is smaller than the maximum
  size plus the length of the record and its newline.
\<close>

theorem write_to_file_checks_before_writing:
  assumes "file_path self = Some fp" and "fp \<noteq> []"
    and "write_to_file self e message w = (None, w')"
  shows "\<exists>f old. map_of (files w') fp = Some f \<and>
           content f = old @ message @ [CHR 0x0A] \<and>
           (0 < max_file_size self \<and> compress_fault e = None \<and> \<not> truncate_fails e \<longrightarrow>
              int (length old) < max_file_size self \<and>
              int (length (content f)) < max_file_size self + int (length message) + 1)"
proof -
  obtain r w1 where rot: "rotate_log_file self e w = (r, w1)"
    by (cases "rotate_log_file self e w")
  have wr: "write_to_file self e message w =
      (case r of Some err \<Rightarrow> (Some err, w1)
       | None \<Rightarrow> append_file e fp (message @ [CHR 0x0A]) w1)"
    using assms(1,2) rot by (simp add: write_to_file_def truthy_def split: option.splits)
  then have r: "r = None" using assms(3) by (cases r) simp_all
  define old where
    "old = (case map_of (files w1) fp of None \<Rightarrow> [] | Some f \<Rightarrow> content f)"
  have ap: "append_file e fp (message @ [CHR 0x0A]) w1 = (None, w')"
    using wr r assms(3) by simp
  then have nf: "append_fault e = None"
    by (cases "append_fault e"; cases "the (append_fault e)")
      (auto simp: append_file_def Let_def)
  then have w': "w' = write_file fp (old @ message @ [CHR 0x0A]) (t_append e) w1"
    using ap by (simp add: append_file_def old_def)
  have room: "int (length old) < max_file_size self"
    if "0 < max_file_size self" "compress_fault e = None" "\<not> truncate_fails e"
  proof (cases "map_of (files w1) fp")
    case None
    then show ?thesis using that(1) by (simp add: old_def)
  next
    case (Some f1)
    from rotate_log_file_leaves_room [OF assms(1,2) that rot [unfolded r] Some]
    show ?thesis using Some by (simp add: old_def)
  qed
  have "map_of (files w') fp =
          Some \<lparr>content = old @ message @ [CHR 0x0A], mtime = t_append e\<rparr>"
    by (simp add: w' map_of_write_file)
  then show ?thesis using room by auto
qed

theorem write_to_file_checks_before_writing_witness:
  "\<exists>f old.
     map_of (files (snd (write_to_file ex_logger ex_env ''request 42 took 3000 ms'' ex_world)))
       ''/var/log/app.log'' = Some f \<and>
     content f = old @ ''request 42 took 3000 ms'' @ [CHR 0x0A] \<and>
     (0 < max_file_size ex_logger \<and> compress_fault ex_env = None \<and>
      \<not> truncate_fails ex_env \<longrightarrow>
        int (length old) < max_file_size ex_logger \<and>
        int (length (content f))
          < max_file_size ex_logger + int (length ''request 42 took 3000 ms'') + 1)"
proof -
  have f: "file_path ex_logger = Some ''/var/log/app.log''" by (simp add: ex_logger_def)
  have n: "''/var/log/app.log'' \<noteq> []" by simp
  have "fst (write_to_file ex_logger ex_env ''request 42 took 3000 ms'' ex_world) = None"
    by code_simp
  then have h: "write_to_file ex_logger ex_env ''request 42 took 3000 ms'' ex_world =
      (None, snd (write_to_file ex_logger ex_env ''request 42 took 3000 ms'' ex_world))"
    by (simp add: prod_eq_iff)
  show ?thesis by (rule write_to_file_checks_before_writing [OF f n h])
qed

text \<open>The claim as written fails: the append below returns normally and leaves a log of
  24 bytes where the maximum size is 16.\<close>

theorem write_to_file_size_counterexample:
  "fst (write_to_file ex_logger ex_env ''request 42 took 3000 ms'' ex_world) = None \<and>
   getsize (snd (write_to_file ex_logger ex_env ''request 42 took 3000 ms'' ex_world))
     ''/var/log/app.log'' = Inr 24 \<and>
   max_file_size ex_logger = 16"
  by code_simp

section \<open>The rotation check\<close>

text \<open>The check does nothing without a file path, without the file, or below the
  maximum size; the lemma \<open>rotate_log_file_keeps_log\<close> above gives the other case for a
  log whose name does not end in \<^verbatim>\<open>.gz\<close>.\<close>

lemma rotate_log_file_noop:
  assumes "\<not> truthy (file_path self) \<or> map_of (files w) (the (file_path self)) = None \<or>
           (\<exists>f. map_of (files w) (the (file_path self)) = Some f \<and>
                int (length (content f)) < max_file_size self)"
  shows "rotate_log_file self e w = (None, w)"
  using assms by (auto simp: rotate_log_file_def path_exists_def getsize_def)

text \<open>
  Claim C4 at a log whose own name ends in \<^verbatim>\<open>.gz\<close> and lies in the archive directory,
  with \<^verbatim>\<open>backup_count = 0\<close>: the rotation archives and empties the log, and the cleanup,
  which matches the log's own name, then removes the log together with the archive.
\<close>

theorem rotate_removes_log_named_like_archive:
  "rotate_log_file gz_logger ex_env gz_world =
     (None, \<lparr>files = [], dirs = [''/var'', ''/var/log''], console = []\<rparr>)"
  by code_simp

theorem rotate_removes_log_named_like_archive_witness:
  "truthy (file_path gz_logger) \<and>
   getsize gz_world ''/var/log/app.gz'' = Inr 16 \<and>
   max_file_size gz_logger = 16 \<and>
   path_exists gz_world ''/var/log/app.gz'' \<and>
   \<not> path_exists (snd (rotate_log_file gz_logger ex_env gz_world)) ''/var/log/app.gz''"
  using rotate_removes_log_named_like_archive
  by (simp add: truthy_def path_exists_def getsize_def gz_logger_def gz_world_def
      ex_logger_def)

section \<open>The archive of a rotation\<close>









section \<open>The bound on the archives\<close>







text \<open>In that run both calls rotate: the first archives the full log, the second the
  record the first call appended; each time the oldest archive goes.\<close>

lemma log_calls_example:
  "map fst (files (snd (log_calls (ex_logger\<lparr>backup_count := 3\<rparr>)
       [(ex_env, ''ERROR'', ''disk is full''),
        (ex_env\<lparr>now := now ex_env\<lparr>hour := 15\<rparr>\<rparr>, ''ERROR'', ''disk is still full'')]
       ex_world))) =
     [''/var/log/app.log'',
      ''/var/log/archive/app.log_20240301_000000.gz'',
      ''/var/log/archive/other.gz'',
      ''/var/log/archive/app.log_20240309_140559.gz'',
      ''/var/log/archive/app.log_20240309_150559.gz'']"
  by code_simp


end
